theory Spec2Isabelle
  imports Complex_Main "HOL-Library.Multiset"
begin

section \<open>The consensus application of \<open>ether_rate_abci/rounds.py\<close>\<close>

subsection \<open>Events and round kinds\<close>

text \<open>The enumeration \<open>Event\<close> of \<open>rounds.py\<close>, member for member.\<close>

datatype Event = DONE | ERROR | TRANSACT | NO_MAJORITY | ROUND_TIMEOUT

text \<open>The string each member carries (\<open>Event.DONE.value\<close> and so on).\<close>

fun event_value :: "Event \<Rightarrow> string" where
  "event_value DONE = ''done''"
| "event_value ERROR = ''error''"
| "event_value TRANSACT = ''transact''"
| "event_value NO_MAJORITY = ''no_majority''"
| "event_value ROUND_TIMEOUT = ''round_timeout''"

text \<open>
  The round classes of the file: \<open>coincapRound\<close>, a \<open>CollectSameUntilThresholdRound\<close>,
  and \<open>FinishedCoincapRound\<close>, a \<open>DegenerateRound\<close>.
\<close>

datatype AppState = coincapRound | FinishedCoincapRound

text \<open>
  The class attributes \<open>done_event\<close> and \<open>no_majority_event\<close> of \<open>coincapRound\<close>; the
  degenerate round declares neither.
\<close>

fun done_event :: "AppState \<Rightarrow> Event option" where
  "done_event coincapRound = Some DONE"
| "done_event FinishedCoincapRound = None"

fun no_majority_event :: "AppState \<Rightarrow> Event option" where
  "no_majority_event coincapRound = Some NO_MAJORITY"
| "no_majority_event FinishedCoincapRound = None"

text \<open>The keys under which \<open>coincapRound\<close> stores its outcome.\<close>

definition collection_key :: string where
  "collection_key = ''participant_to_rate_round''"

definition selection_key :: "string list" where
  "selection_key = [''rateUSD'']"

subsection \<open>\<open>CoincapAbciApp\<close>\<close>

definition initial_round_cls :: AppState where
  "initial_round_cls = coincapRound"

definition initial_states :: "AppState list" where
  "initial_states = [coincapRound]"

text \<open>
  The dictionary \<open>transition_function\<close>, as the association list of its items in the
  order the source writes them.
\<close>

definition transition_function :: "(AppState \<times> (Event \<times> AppState) list) list" where
  "transition_function =
     [(coincapRound,
         [(NO_MAJORITY, coincapRound),
          (ROUND_TIMEOUT, coincapRound),
          (DONE, FinishedCoincapRound)]),
      (FinishedCoincapRound, [])]"

definition final_states :: "AppState list" where
  "final_states = [FinishedCoincapRound]"

text \<open>\<open>event_to_timeout\<close> is the empty dictionary: no event has a configured duration.\<close>

definition event_to_timeout :: "(Event \<times> nat) list" where
  "event_to_timeout = []"

text \<open>
  The events a round kind can hand to the transition function: the events its class
  declares (\<open>done_event\<close>, \<open>no_majority_event\<close>) and, for a round that collects payloads,
  the timeout event \<open>ROUND_TIMEOUT\<close> that the class body references. A degenerate round
  produces no event.
\<close>

fun producible_events :: "AppState \<Rightarrow> Event list" where
  "producible_events coincapRound =
     (case done_event coincapRound of None \<Rightarrow> [] | Some e \<Rightarrow> [e]) @
     (case no_majority_event coincapRound of None \<Rightarrow> [] | Some e \<Rightarrow> [e]) @
     [ROUND_TIMEOUT]"
| "producible_events FinishedCoincapRound = []"

datatype engine_error = InvalidTransition

text \<open>
  Modelled from the spec: the lookup \<open>next(round_kind, event)\<close> of the transition engine
  (section 4.2), whose code is in the framework's \<open>AbciApp\<close> and not in this repository's
  files. It is a pure lookup in the transition map and fails with \<open>InvalidTransition\<close>
  when the pair is absent.
\<close>

definition next_round :: "AppState \<Rightarrow> Event \<Rightarrow> engine_error + AppState" where
  "next_round k e =
     (case map_of transition_function k of
        None \<Rightarrow> Inl InvalidTransition
      | Some edges \<Rightarrow>
          (case map_of edges e of
             None \<Rightarrow> Inl InvalidTransition
           | Some k' \<Rightarrow> Inr k'))"

text \<open>The outgoing edges of a round kind in the transition map.\<close>

definition outgoing :: "AppState \<Rightarrow> (Event \<times> AppState) list" where
  "outgoing k = (case map_of transition_function k of None \<Rightarrow> [] | Some edges \<Rightarrow> edges)"

text \<open>
  The round kinds the application can be in: the initial one, and every kind that the
  transition map gives for an event producible in a reachable kind.
\<close>

inductive reachable :: "AppState \<Rightarrow> bool" where
  reachable_initial: "reachable initial_round_cls"
| reachable_step:
    "reachable k \<Longrightarrow> e \<in> set (producible_events k) \<Longrightarrow> map_of (outgoing k) e = Some k'
       \<Longrightarrow> reachable k'"

section \<open>The behaviours of \<open>learning_abci/behaviours.py\<close>\<close>

subsection \<open>Python values and the built-ins taken as given\<close>

text \<open>The exceptions the modelled code can raise.\<close>

datatype py_error =
  TypeError | ValueError | KeyError | IndexError | OverflowError | ZeroDivisionError
  | JSONDecodeError | IPFSError

text \<open>
  The values that JSON documents and contract answers hold: \<open>None\<close>, booleans,
  integers, strings, lists and dictionaries with string keys (the list of their items;
  keys are distinct). Floats are not values of this type: the code below computes with
  them only through the operations of \<open>python\<close>.
\<close>

datatype pyval =
  VNone | VBool bool | VInt int | VStr string | VList "pyval list"
  | VDict "(string \<times> pyval) list"

text \<open>
  The interpreter's operations that are inputs of the model rather than definitions of
  it: \<open>json.loads\<close>, \<open>int\<close> on a string, \<open>bytes.fromhex\<close>, and the three float
  operations \<open>int / int\<close>, \<open>int * float\<close> and \<open>int(float)\<close>, over a type \<open>'f\<close> of
  floats. Each returns its result or the exception it raises.
\<close>

record 'f python =
  json_loads :: "string \<Rightarrow> py_error + pyval"
  int_of_str :: "string \<Rightarrow> py_error + int"
  bytes_fromhex :: "string \<Rightarrow> py_error + string"
  truediv :: "int \<Rightarrow> int \<Rightarrow> py_error + 'f"
  mul_float :: "int \<Rightarrow> 'f \<Rightarrow> py_error + 'f"
  int_of_float :: "'f \<Rightarrow> py_error + int"

text \<open>Truth value of an object (\<open>if x\<close>, \<open>not x\<close>).\<close>

fun truthy :: "pyval \<Rightarrow> bool" where
  "truthy VNone = False"
| "truthy (VBool b) = b"
| "truthy (VInt n) = (n \<noteq> 0)"
| "truthy (VStr s) = (s \<noteq> [])"
| "truthy (VList xs) = (xs \<noteq> [])"
| "truthy (VDict kvs) = (kvs \<noteq> [])"

text \<open>\<open>x[i]\<close> for a non-negative integer literal \<open>i\<close>.\<close>

fun py_getitem :: "pyval \<Rightarrow> nat \<Rightarrow> py_error + pyval" where
  "py_getitem (VList xs) i = (if i < length xs then Inr (xs ! i) else Inl IndexError)"
| "py_getitem (VStr s) i = (if i < length s then Inr (VStr [s ! i]) else Inl IndexError)"
| "py_getitem (VDict kvs) i = Inl KeyError"
| "py_getitem v i = Inl TypeError"

text \<open>\<open>x[key]\<close> for a string key.\<close>

fun py_getkey :: "pyval \<Rightarrow> string \<Rightarrow> py_error + pyval" where
  "py_getkey (VDict kvs) k = (case map_of kvs k of None \<Rightarrow> Inl KeyError | Some v \<Rightarrow> Inr v)"
| "py_getkey v k = Inl TypeError"

text \<open>\<open>len(x)\<close>.\<close>

fun py_len :: "pyval \<Rightarrow> py_error + nat" where
  "py_len (VList xs) = Inr (length xs)"
| "py_len (VStr s) = Inr (length s)"
| "py_len (VDict kvs) = Inr (length kvs)"
| "py_len v = Inl TypeError"

text \<open>\<open>x == 1\<close>: \<open>True\<close> equals \<open>1\<close> in Python.\<close>

fun py_eq_one :: "pyval \<Rightarrow> bool" where
  "py_eq_one (VInt n) = (n = 1)"
| "py_eq_one (VBool b) = b"
| "py_eq_one v = False"

text \<open>\<open>int(x)\<close>.\<close>

fun py_int :: "'f python \<Rightarrow> pyval \<Rightarrow> py_error + int" where
  "py_int py (VInt n) = Inr n"
| "py_int py (VBool b) = Inr (if b then 1 else 0)"
| "py_int py (VStr s) = int_of_str py s"
| "py_int py v = Inl TypeError"

text \<open>\<open>x * m\<close> for a float \<open>m\<close>.\<close>

fun py_mul_float :: "'f python \<Rightarrow> pyval \<Rightarrow> 'f \<Rightarrow> py_error + 'f" where
  "py_mul_float py (VInt n) m = mul_float py n m"
| "py_mul_float py (VBool b) m = mul_float py (if b then 1 else 0) m"
| "py_mul_float py v m = Inl TypeError"

text \<open>\<open>str(n)\<close> for an integer: its decimal digits, with a minus sign when negative.\<close>

definition digit_char :: "nat \<Rightarrow> char" where
  "digit_char d = ''0123456789'' ! d"

function str_nat :: "nat \<Rightarrow> string" where
  "str_nat n = (if n < 10 then [digit_char n] else str_nat (n div 10) @ [digit_char (n mod 10)])"
  by pat_completeness auto
termination
  by (relation "measure id") auto

definition py_str :: "int \<Rightarrow> string" where
  "py_str n = (if n < 0 then CHR ''-'' # str_nat (nat (- n)) else str_nat (nat n))"

text \<open>
  \<open>d[key] = v\<close> on a dictionary kept as the list of its items: an existing key keeps its
  place, a new key goes last.
\<close>

fun dict_set :: "('k \<times> 'v) list \<Rightarrow> 'k \<Rightarrow> 'v \<Rightarrow> ('k \<times> 'v) list" where
  "dict_set [] k v = [(k, v)]"
| "dict_set ((k', v') # kvs) k v =
     (if k' = k then (k, v) # kvs else (k', v') # dict_set kvs k v)"

text \<open>\<open>d.get(key, default)\<close>.\<close>

definition dict_get :: "('k \<times> 'v) list \<Rightarrow> 'k \<Rightarrow> 'v \<Rightarrow> 'v" where
  "dict_get d k dflt = (case map_of d k of None \<Rightarrow> dflt | Some v \<Rightarrow> v)"

subsection \<open>\<open>DataPullBehaviour.get_token_holders\<close>\<close>

definition HTTP_OK :: int where
  "HTTP_OK = 200"

record http_response =
  status_code :: int
  body :: string

text \<open>The dictionary \<open>urls\<close> of the method, in the order of its items.\<close>

definition urls :: "(string \<times> string) list" where
  "urls =
     [(''arbitrum'',
       ''https://arbitrum.blockscout.com/api/v2/tokens/0xFd086bC7CD5C481DCC9C85ebE478A1C0b69FCbb9''),
      (''base'',
       ''https://base.blockscout.com/api/v2/tokens/0xfde4C96c8593536E31F229EA8f37b2ADa2699bb2'')]"

text \<open>
  The loop of \<open>get_token_holders\<close> over the items of \<open>urls\<close>. The HTTP collaborator
  \<open>get_http_response\<close> is the function \<open>http\<close> from the requested URL to the response
  (method and headers are the same in every call). A response whose status is not
  \<open>HTTP_OK\<close> is skipped (\<open>continue\<close>); otherwise the body is parsed and
  \<open>int(api_data["holders"])\<close> is stored. An exception of the parse leaves the
  method, as nothing in it catches one.
\<close>

fun pull_holders ::
  "'f python \<Rightarrow> (string \<Rightarrow> http_response) \<Rightarrow> (string \<times> string) list \<Rightarrow>
   (string \<times> int) list \<Rightarrow> py_error + (string \<times> int) list" where
  "pull_holders py http [] holders = Inr holders"
| "pull_holders py http ((network, url) # rest) holders =
     (let response = http url in
      if status_code response \<noteq> HTTP_OK then pull_holders py http rest holders
      else
        (case json_loads py (body response) of
           Inl err \<Rightarrow> Inl err
         | Inr api_data \<Rightarrow>
             (case py_getkey api_data ''holders'' of
                Inl err \<Rightarrow> Inl err
              | Inr h \<Rightarrow>
                  (case py_int py h of
                     Inl err \<Rightarrow> Inl err
                   | Inr n \<Rightarrow> pull_holders py http rest (dict_set holders network n)))))"

definition get_token_holders ::
  "'f python \<Rightarrow> (string \<Rightarrow> http_response) \<Rightarrow> py_error + (string \<times> int) list" where
  "get_token_holders py http = pull_holders py http urls [(''arbitrum'', 0), (''base'', 0)]"

text \<open>
  What \<open>DataPullBehaviour.async_act\<close> reads from the returned dictionary:
  \<open>token_holders.get("arbitrum", 0)\<close> and \<open>token_holders.get("base", 0)\<close>.
\<close>

definition payload_holders :: "(string \<times> int) list \<Rightarrow> int \<times> int" where
  "payload_holders token_holders =
     (dict_get token_holders ''arbitrum'' 0, dict_get token_holders ''base'' 0)"

text \<open>
  The count one response contributes: \<open>None\<close> when the response is skipped, the parsed
  count or the exception otherwise.
\<close>

definition parsed_holders :: "'f python \<Rightarrow> http_response \<Rightarrow> (py_error + int) option" where
  "parsed_holders py response =
     (if status_code response \<noteq> HTTP_OK then None
      else Some
        (case json_loads py (body response) of
           Inl err \<Rightarrow> Inl err
         | Inr api_data \<Rightarrow>
             (case py_getkey api_data ''holders'' of
                Inl err \<Rightarrow> Inl err
              | Inr h \<Rightarrow> py_int py h)))"

definition arbitrum_url :: string where
  "arbitrum_url = dict_get urls ''arbitrum'' []"

definition base_url :: string where
  "base_url = dict_get urls ''base'' []"

subsection \<open>What a behaviour reads: synchronized data, parameters, collaborators\<close>

text \<open>
  The properties of the synchronized data that the behaviours read. The class that
  declares them (\<open>learning_abci/rounds.py\<close>) is not among the files; the holder counts
  are the integers \<open>DataPullBehaviour\<close> sends, \<open>prize_amount\<close> is whatever value the
  decision round stored, the hash and the bet id are optional. Field \<open>sd_x\<close> is the
  property \<open>synchronized_data.x\<close>.
\<close>

record synchronized_data =
  sd_arbitrum_holders :: int
  sd_base_holders :: int
  sd_bet_details_ipfs_hash :: "string option"
  sd_prize_amount :: pyval
  sd_bet_id :: "int option"
  sd_result :: string
  sd_safe_contract_address :: string

datatype performative = STATE | RAW_TRANSACTION | ERROR_MSG

text \<open>
  A contract api answer: its performative and the body of its state or raw transaction,
  a dictionary from strings to the strings or bytes the callers cast its entries to.
\<close>

record contract_api_message =
  msg_performative :: performative
  msg_body :: "(string \<times> string) list"

datatype MultiSendOperation = MULTISEND_CALL | MULTISEND_DELEGATE_CALL

datatype SafeOperation = SAFE_CALL | SAFE_DELEGATE_CALL

datatype call_data = Bytes string | Str string

text \<open>An entry of \<open>multi_send_txs\<close>: the keys \<open>operation\<close>, \<open>to\<close>, \<open>value\<close>, \<open>data\<close>.\<close>

record multisend_tx =
  ms_operation :: MultiSendOperation
  ms_to :: pyval
  ms_value :: int
  ms_data :: call_data

text \<open>
  The context of one act step: the agent's address, the synchronized data, the two
  addresses of \<open>params\<close>, and the collaborators as functions of the arguments the code
  passes: \<open>get_from_ipfs\<close> (its answer, \<open>None\<close>, or the exception it raises), the contract
  api calls \<open>resolve_bet\<close>, \<open>get_tx_data\<close> and \<open>get_raw_safe_transaction_hash\<close>, and
  \<open>hash_payload_to_hex\<close> of the transaction settlement skill.
\<close>

record behaviour_context =
  agent_address :: string
  sync_data :: synchronized_data
  betchain_contract_address :: string
  multisend_address :: string
  get_from_ipfs :: "string \<Rightarrow> py_error + (string \<times> pyval) list option"
  resolve_bet :: "int \<Rightarrow> int \<Rightarrow> string option \<Rightarrow> contract_api_message"
  get_tx_data :: "multisend_tx list \<Rightarrow> contract_api_message"
  get_raw_safe_transaction_hash ::
    "string \<Rightarrow> int \<Rightarrow> string \<Rightarrow> SafeOperation \<Rightarrow> contract_api_message"
  hash_payload_to_hex ::
    "string \<Rightarrow> int \<Rightarrow> int \<Rightarrow> string \<Rightarrow> string \<Rightarrow> SafeOperation \<Rightarrow> py_error + string"


text \<open>
  How one execution of \<open>async_act\<close> ends: it sends a payload (\<open>send_a2a_transaction\<close>),
  it returns before sending one, or an exception leaves it.
\<close>

datatype 'p act_result = Submitted 'p | ReturnedNone | Raised py_error

subsection \<open>\<open>LearningBaseBehaviour.get_bet_details_from_ipfs\<close>\<close>

text \<open>
  \<open>None\<close> (here \<open>VNone\<close>) when there is no hash, when the document is \<open>None\<close> or empty or
  has no key \<open>bet_details\<close>, and when \<open>get_from_ipfs\<close> raises: the \<open>try\<close> catches every
  \<open>Exception\<close>. Otherwise the entry \<open>bet_details\<close> of the document.
\<close>

definition get_bet_details_from_ipfs :: "behaviour_context \<Rightarrow> pyval" where
  "get_bet_details_from_ipfs ctx =
     (case sd_bet_details_ipfs_hash (sync_data ctx) of
        None \<Rightarrow> VNone
      | Some ipfs_hash \<Rightarrow>
          if ipfs_hash = [] then VNone
          else
            (case get_from_ipfs ctx ipfs_hash of
               Inl err \<Rightarrow> VNone
             | Inr None \<Rightarrow> VNone
             | Inr (Some bet_details) \<Rightarrow>
                 if bet_details = [] \<or> map_of bet_details ''bet_details'' = None then VNone
                 else dict_get bet_details ''bet_details'' VNone))"

subsection \<open>\<open>DecisionMakingBehaviour\<close>\<close>

text \<open>
  \<open>determine_winner_and_prize\<close>, statement by statement. The quotient
  \<open>holder_difference / 1000\<close> is computed before the conditional expression, the product
  and its truncation only when the result is \<open>win\<close>.
\<close>

definition determine_winner_and_prize ::
  "'f python \<Rightarrow> synchronized_data \<Rightarrow> pyval \<Rightarrow> py_error + (string \<times> int)" where
  "determine_winner_and_prize py sd bet_details =
     (case (if truthy bet_details then py_getitem bet_details 0 else Inr (VInt 0)) of
        Inl err \<Rightarrow> Inl err
      | Inr user_choice \<Rightarrow>
     (case py_len bet_details of
        Inl err \<Rightarrow> Inl err
      | Inr len \<Rightarrow>
     (case (if len > 1 then py_getitem bet_details 1 else Inr (VInt 0)) of
        Inl err \<Rightarrow> Inl err
      | Inr bet_amount \<Rightarrow>
     (let arbitrum_holders = sd_arbitrum_holders sd;
          base_holders = sd_base_holders sd;
          user_selected = (if py_eq_one user_choice then ''arbitrum'' else ''base'');
          actual_winner = (if arbitrum_holders > base_holders then ''arbitrum'' else ''base'');
          result = (if user_selected = actual_winner then ''win'' else ''lose'');
          holder_difference = \<bar>arbitrum_holders - base_holders\<bar>
      in
        (case truediv py holder_difference 1000 of
           Inl err \<Rightarrow> Inl err
         | Inr prize_multiplier \<Rightarrow>
             if result = ''win'' then
               (case py_mul_float py bet_amount prize_multiplier of
                  Inl err \<Rightarrow> Inl err
                | Inr product \<Rightarrow>
                    (case int_of_float py product of
                       Inl err \<Rightarrow> Inl err
                     | Inr prize_amount \<Rightarrow> Inr (result, prize_amount)))
             else Inr (result, 0))))))"

text \<open>
  \<open>DecisionMakingPayload(sender, event, result, prize_amount)\<close>: the prize is the integer
  \<open>0\<close> on the error path and the string \<open>str(prize_amount)\<close> otherwise.
\<close>

datatype DecisionMakingPayload = DecisionMakingPayload string string string pyval

definition decision_making_async_act ::
  "'f python \<Rightarrow> behaviour_context \<Rightarrow> DecisionMakingPayload act_result" where
  "decision_making_async_act py ctx =
     (let sender = agent_address ctx;
          bet_details = get_bet_details_from_ipfs ctx
      in
        if bet_details = VNone then
          Submitted (DecisionMakingPayload sender (event_value ERROR) ''lose'' (VInt 0))
        else
          (case determine_winner_and_prize py (sync_data ctx) bet_details of
             Inl err \<Rightarrow> Raised err
           | Inr (result, prize_amount) \<Rightarrow>
               Submitted
                 (DecisionMakingPayload sender
                    (if prize_amount > 0 then event_value TRANSACT else event_value DONE)
                    result (VStr (py_str prize_amount)))))"

subsection \<open>\<open>TxPreparationBehaviour\<close>\<close>









subsection \<open>Sample inputs\<close>

text \<open>
  An instance of the built-ins for the examples below. It agrees with CPython at the
  arguments the examples pass: the two HTTP bodies, the decimal strings, the hexadecimal
  string, and float operations whose operands and results are small integers (there
  exact rational arithmetic and truncation towards zero are what the floats give).
\<close>

definition sample_python :: "rat python" where
  \<open>sample_python =
     \<lparr>json_loads =
        (\<lambda>s. if s = ''{"holders": "1523"}'' then Inr (VDict [(''holders'', VStr ''1523'')])
             else Inl JSONDecodeError),
      int_of_str =
        (\<lambda>s. if s = ''1523'' then Inr 1523 else if s = ''30'' then Inr 30 else Inl ValueError),
      bytes_fromhex = (\<lambda>s. if s = ''8d80ff0a'' then Inr ''mult'' else Inl ValueError),
      truediv = (\<lambda>a b. if b = 0 then Inl ZeroDivisionError else Inr (of_int a / of_int b)),
      mul_float = (\<lambda>n f. Inr (of_int n * f)),
      int_of_float = (\<lambda>f. Inr (if 0 \<le> f then \<lfloor>f\<rfloor> else \<lceil>f\<rceil>))\<rparr>\<close>

text \<open>Arbitrum answers with a server error, Base with a count.\<close>

definition sample_http :: "string \<Rightarrow> http_response" where
  \<open>sample_http url =
     (if url = arbitrum_url then \<lparr>status_code = 500, body = ''Internal Server Error''\<rparr>
      else \<lparr>status_code = 200, body = ''{"holders": "1523"}''\<rparr>)\<close>

text \<open>Arbitrum answers with a server error, Base with status 200 and a page that is not JSON.\<close>

definition html_http :: "string \<Rightarrow> http_response" where
  "html_http url =
     (if url = arbitrum_url then \<lparr>status_code = 500, body = ''Internal Server Error''\<rparr>
      else \<lparr>status_code = 200, body = ''<html>Bad Gateway</html>''\<rparr>)"

definition sample_synchronized_data :: synchronized_data where
  "sample_synchronized_data =
     \<lparr>sd_arbitrum_holders = 5000, sd_base_holders = 2000,
      sd_bet_details_ipfs_hash = Some ''bafybeigdyrzt5sfp7udm7hu76uh7y26nf3efuylqabf3oclgtqy55fbzdi'',
      sd_prize_amount = VStr ''30'', sd_bet_id = Some 1, sd_result = ''win'',
      sd_safe_contract_address = ''0x5afe''\<rparr>"

text \<open>Every collaborator answers; the stored bet is choice 1 with amount 10.\<close>

definition sample_context :: behaviour_context where
  "sample_context =
     \<lparr>agent_address = ''agent_0'',
      sync_data = sample_synchronized_data,
      betchain_contract_address = ''0xbe7c'',
      multisend_address = ''0x3417'',
      get_from_ipfs =
        (\<lambda>h. Inr (Some [(''timestamp'', VInt 1700000000),
                         (''bet_details'', VList [VInt 1, VInt 10])])),
      resolve_bet =
        (\<lambda>bet_id result ipfs_hash.
           \<lparr>msg_performative = RAW_TRANSACTION, msg_body = [(''data'', ''ab'')]\<rparr>),
      get_tx_data =
        (\<lambda>txs. \<lparr>msg_performative = RAW_TRANSACTION, msg_body = [(''data'', ''0x8d80ff0a'')]\<rparr>),
      get_raw_safe_transaction_hash =
        (\<lambda>to_address value data operation.
           \<lparr>msg_performative = STATE, msg_body = [(''tx_hash'', ''0xfeed'')]\<rparr>),
      hash_payload_to_hex =
        (\<lambda>safe_tx_hash ether_value safe_tx_gas to_address data operation.
           Inr (safe_tx_hash @ ''0000''))\<rparr>"

text \<open>The same context with the IPFS collaborator down.\<close>

definition ipfs_down_context :: behaviour_context where
  "ipfs_down_context = sample_context\<lparr>get_from_ipfs := (\<lambda>h. Inl IPFSError)\<rparr>"

section \<open>Rounds and the round sequence\<close>

text \<open>
  The classes \<open>CollectSameUntilThresholdRound\<close>, \<open>BaseSynchronizedData\<close> and \<open>AbciApp\<close>
  that \<open>rounds.py\<close> extends are framework code outside this repository's files. The
  definitions of this section follow the specification's sections 3 and 4.
\<close>

type_synonym participant = string

text \<open>
  Modelled from the spec: a Payload \<open>{sender, round_id, value}\<close> (section 3); the class
  \<open>coincapPayload\<close> is not among the files.
\<close>

record 'v Payload =
  sender :: participant
  round_id :: nat
  payload_value :: 'v

text \<open>
  Modelled from the spec: SynchronizedData \<open>{version, entries, collections}\<close> (section 3),
  whose base class is not among the files. The two maps are dictionaries kept as the
  lists of their items.
\<close>

record 'v SynchronizedData =
  version :: nat
  entries :: "(string \<times> 'v) list"
  collections :: "(string \<times> (participant \<times> 'v Payload) list) list"

text \<open>
  Modelled from the spec: a Round \<open>{kind, instance_id, threshold, collected}\<close> (section 3)
  together with the size \<open>n\<close> of the participant set that \<open>try_conclude\<close> compares the
  collection with (section 4.1). The map \<open>collected\<close> is a dictionary kept as the list of
  its items in arrival order.
\<close>

record 'v Round =
  kind :: AppState
  instance_id :: nat
  threshold :: nat
  n_participants :: nat
  collected :: "(participant \<times> 'v Payload) list"

datatype round_error = DuplicatePayload | RoundConcluded

datatype 'v conclusion = Pending | Concluded Event "'v SynchronizedData"

text \<open>
  Modelled from the spec: the groups of \<open>try_conclude\<close> (section 4.1). The group of a
  value is the senders whose collected payload has that value; its size is the number
  of distinct senders among them.
\<close>

definition senders_of :: "'v Round \<Rightarrow> 'v \<Rightarrow> participant list" where
  "senders_of r v = map fst (filter (\<lambda>(s, p). payload_value p = v) (collected r))"

definition sender_count :: "'v Round \<Rightarrow> 'v \<Rightarrow> nat" where
  "sender_count r v = length (remdups (senders_of r v))"

text \<open>
  Modelled from the spec: the values that have a group (section 4.1), in the order of
  their first arrival.
\<close>

definition collected_values :: "'v Round \<Rightarrow> 'v list" where
  "collected_values r = remdups (map (\<lambda>(s, p). payload_value p) (collected r))"

text \<open>
  Modelled from the spec: the value of a group whose distinct-sender count reaches the
  threshold, if any (section 4.1); the first such value in arrival order.
\<close>

definition threshold_value :: "'v Round \<Rightarrow> 'v option" where
  "threshold_value r = find (\<lambda>v. threshold r \<le> sender_count r v) (collected_values r)"

text \<open>
  Modelled from the spec: the data a \<open>DONE\<close> conclusion returns,
  \<open>synchronized_data_with(value)\<close> (section 4.1): the value under the selection key and
  the collection under the collection key, the two keys \<open>coincapRound\<close> declares.
\<close>

definition synchronized_data_with ::
  "'v SynchronizedData \<Rightarrow> 'v Round \<Rightarrow> 'v \<Rightarrow> 'v SynchronizedData" where
  "synchronized_data_with sd r v =
     sd\<lparr>entries := dict_set (entries sd) (hd selection_key) v,
        collections := dict_set (collections sd) collection_key (collected r)\<rparr>"

text \<open>
  Modelled from the spec: \<open>try_conclude\<close> (section 4.1). It groups the payloads by value;
  if a group's distinct-sender count reaches the threshold it returns \<open>DONE\<close> with the
  data holding the value; if every participant has submitted and no group did, it
  returns \<open>NO_MAJORITY\<close> with the data unchanged; otherwise \<open>Pending\<close>.
\<close>

definition try_conclude :: "'v SynchronizedData \<Rightarrow> 'v Round \<Rightarrow> 'v conclusion" where
  "try_conclude sd r =
     (case threshold_value r of
        Some v \<Rightarrow> Concluded DONE (synchronized_data_with sd r v)
      | None \<Rightarrow>
          if length (collected r) = n_participants r then Concluded NO_MAJORITY sd
          else Pending)"

text \<open>
  Modelled from the spec: the round already produced an outcome (section 4.1), that is,
  \<open>try_conclude\<close> is not \<open>Pending\<close>.
\<close>

definition has_outcome :: "'v Round \<Rightarrow> bool" where
  "has_outcome r \<longleftrightarrow>
     threshold_value r \<noteq> None \<or> length (collected r) = n_participants r"

text \<open>
  Modelled from the spec: \<open>add_payload\<close> (section 4.1). It fails with \<open>DuplicatePayload\<close>
  if the sender already has an entry that differs from this payload, and with
  \<open>RoundConcluded\<close> if the round already produced an outcome; otherwise it stores the
  payload, which changes nothing when the same payload is stored again.
\<close>

definition add_payload :: "'v Round \<Rightarrow> 'v Payload \<Rightarrow> round_error + 'v Round" where
  "add_payload r p =
     (case map_of (collected r) (sender p) of
        Some q \<Rightarrow>
          if q \<noteq> p then Inl DuplicatePayload
          else if has_outcome r then Inl RoundConcluded
          else Inr r
      | None \<Rightarrow>
          if has_outcome r then Inl RoundConcluded
          else Inr (r\<lparr>collected := collected r @ [(sender p, p)]\<rparr>))"

text \<open>
  Modelled from the spec: the payloads of a list delivered to one round instance in
  order, each routed to \<open>add_payload\<close> (section 4.3); a rejected payload leaves the round
  as it is.
\<close>

fun collect :: "'v Round \<Rightarrow> 'v Payload list \<Rightarrow> 'v Round" where
  "collect r [] = r"
| "collect r (p # ps) =
     collect (case add_payload r p of Inl err \<Rightarrow> r | Inr r' \<Rightarrow> r') ps"

text \<open>
  Modelled from the spec: the event \<open>try_conclude\<close> returns and the value it carries, if
  the round concludes (section 4.1).
\<close>

definition round_result :: "'v Round \<Rightarrow> (Event \<times> 'v option) option" where
  "round_result r =
     (case threshold_value r of
        Some v \<Rightarrow> Some (DONE, Some v)
      | None \<Rightarrow> if length (collected r) = n_participants r then Some (NO_MAJORITY, None) else None)"

text \<open>
  Modelled from the spec: a fresh Round of a kind (sections 3 and 4.3): a new instance
  with the configuration of the old one and nothing collected.
\<close>

definition fresh_round :: "AppState \<Rightarrow> 'v Round \<Rightarrow> 'v Round" where
  "fresh_round k r =
     \<lparr>kind = k, instance_id = instance_id r + 1, threshold = threshold r,
      n_participants = n_participants r, collected = []\<rparr>"

text \<open>
  Modelled from the spec: the step of the round sequence on an event of the active
  round (section 4.3): it looks the next round kind up in the transition function and
  instantiates a fresh round of that kind. The event is the one \<open>try_conclude\<close> produced
  or the \<open>ROUND_TIMEOUT\<close> the watchdog forces.
\<close>

definition advance :: "'v Round \<Rightarrow> Event \<Rightarrow> engine_error + 'v Round" where
  "advance r ev =
     (case next_round (kind r) ev of
        Inl err \<Rightarrow> Inl err
      | Inr k \<Rightarrow> Inr (fresh_round k r))"

text \<open>Scenario inputs: four participants, threshold three.\<close>

definition scenario_round :: "string Round" where
  "scenario_round =
     \<lparr>kind = coincapRound, instance_id = 0, threshold = 3, n_participants = 4, collected = []\<rparr>"

definition pay :: "participant \<Rightarrow> 'v \<Rightarrow> 'v Payload" where
  "pay s v = \<lparr>sender = s, round_id = 0, payload_value = v\<rparr>"

text \<open>
  Modelled from the spec: the number of distinct senders that submitted a value
  (section 8), over a list of payloads.
\<close>

definition distinct_senders :: "'v Payload list \<Rightarrow> 'v \<Rightarrow> nat" where
  "distinct_senders ps v =
     length (remdups (map sender (filter (\<lambda>p. payload_value p = v) ps)))"

definition empty_data :: "string SynchronizedData" where
  "empty_data = \<lparr>version = 0, entries = [], collections = []\<rparr>"

text \<open>Scenario B of the specification: the payloads X, X, Y, Y.\<close>

definition scenario_B :: "string Round" where
  "scenario_B = collect scenario_round
     [pay ''a'' ''X'', pay ''b'' ''X'', pay ''c'' ''Y'', pay ''d'' ''Y'']"

text \<open>Two of the four participants have submitted.\<close>

definition scenario_half :: "string Round" where
  "scenario_half = collect scenario_round [pay ''a'' ''X'', pay ''b'' ''X'']"

section \<open>The transition map\<close>

lemma outgoing_coincap:
  "map_of (outgoing coincapRound) NO_MAJORITY = Some coincapRound"
  "map_of (outgoing coincapRound) ROUND_TIMEOUT = Some coincapRound"
  "map_of (outgoing coincapRound) DONE = Some FinishedCoincapRound"
  by (simp_all add: outgoing_def transition_function_def)

lemma next_round_outgoing:
  "next_round k e = (case map_of (outgoing k) e of None \<Rightarrow> Inl InvalidTransition | Some k' \<Rightarrow> Inr k')"
  by (cases k) (simp_all add: next_round_def outgoing_def transition_function_def)

lemma next_round_coincap:
  "next_round coincapRound NO_MAJORITY = Inr coincapRound"
  "next_round coincapRound ROUND_TIMEOUT = Inr coincapRound"
  "next_round coincapRound DONE = Inr FinishedCoincapRound"
  by (simp_all add: next_round_outgoing outgoing_coincap)

lemma producible_coincap:
  "set (producible_events coincapRound) = {DONE, NO_MAJORITY, ROUND_TIMEOUT}"
  by auto

lemma producible_has_edge:
  "e \<in> set (producible_events k) \<Longrightarrow> \<exists>k'. map_of (outgoing k) e = Some k'"
  by (cases k) (auto simp: outgoing_coincap)

text \<open>
  Claim C3. Every pair of a round kind reachable from the initial round and an event
  that kind can produce (its declared events and the timeout event) has an entry in the
  transition map, and every final (degenerate) round kind is a key of the map with no
  outgoing edge.
\<close>

theorem transition_function_total_on_reachable:
  "(\<forall>k e. reachable k \<longrightarrow> e \<in> set (producible_events k) \<longrightarrow>
       (\<exists>k'. map_of (outgoing k) e = Some k')) \<and>
   (\<forall>k \<in> set final_states. map_of transition_function k = Some [] \<and> outgoing k = [])"
proof (intro conjI allI impI ballI)
  fix k e
  assume "reachable k" and "e \<in> set (producible_events k)"
  then show "\<exists>k'. map_of (outgoing k) e = Some k'"
    by (simp add: producible_has_edge)
next
  fix k
  assume "k \<in> set final_states"
  then have k: "k = FinishedCoincapRound"
    by (simp add: final_states_def)
  show "map_of transition_function k = Some []"
    by (simp add: k transition_function_def)
  show "outgoing k = []"
    by (simp add: k outgoing_def transition_function_def)
qed

theorem transition_function_total_on_reachable_witness:
  "reachable FinishedCoincapRound \<and>
   NO_MAJORITY \<in> set (producible_events coincapRound) \<and>
   map_of (outgoing coincapRound) NO_MAJORITY = Some coincapRound \<and>
   FinishedCoincapRound \<in> set final_states \<and>
   outgoing FinishedCoincapRound = []"
proof -
  have r0: "reachable coincapRound"
    using reachable_initial by (simp add: initial_round_cls_def)
  have r1: "reachable FinishedCoincapRound"
    by (rule reachable_step [OF r0, of DONE]) (simp_all add: outgoing_coincap)
  have e: "NO_MAJORITY \<in> set (producible_events coincapRound)"
    by simp
  have f: "FinishedCoincapRound \<in> set final_states"
    by (simp add: final_states_def)
  from transition_function_total_on_reachable r0 e f r1 show ?thesis
    by (auto simp: outgoing_coincap)
qed

text \<open>
  Hence the lookup of the next round never fails with \<open>InvalidTransition\<close> on a pair the
  application can produce.
\<close>

lemma next_round_never_fails:
  assumes "reachable k" and "e \<in> set (producible_events k)"
  shows "\<exists>k'. next_round k e = Inr k'"
  using producible_has_edge [OF assms(2)] by (auto simp: next_round_outgoing)

section \<open>The token holders pulled by \<open>DataPullBehaviour\<close>\<close>

lemma urls_distinct: "arbitrum_url \<noteq> base_url"
  by (simp add: arbitrum_url_def base_url_def urls_def dict_get_def)

text \<open>
  The two iterations of the loop, unrolled: the method raises the first exception a
  status-200 response produces, and otherwise returns the two counts.
\<close>

lemma get_token_holders_unfold:
  "get_token_holders py http =
     (case parsed_holders py (http arbitrum_url) of
        Some (Inl err) \<Rightarrow> Inl err
      | a \<Rightarrow>
          (case parsed_holders py (http base_url) of
             Some (Inl err) \<Rightarrow> Inl err
           | b \<Rightarrow>
               Inr [(''arbitrum'', case a of Some (Inr n) \<Rightarrow> n | _ \<Rightarrow> 0),
                    (''base'', case b of Some (Inr n) \<Rightarrow> n | _ \<Rightarrow> 0)]))"
  by (simp add: get_token_holders_def urls_def parsed_holders_def arbitrum_url_def
      base_url_def dict_get_def Let_def split: sum.splits)

lemma sample_parsed:
  "parsed_holders sample_python (sample_http arbitrum_url) = None"
  "parsed_holders sample_python (sample_http base_url) = Some (Inr 1523)"
  using urls_distinct
  by (simp_all add: parsed_holders_def sample_http_def sample_python_def HTTP_OK_def)

text \<open>
  Claim C10, as stated, fails: a response with status 200 whose body is not JSON makes
  \<open>json.loads\<close> raise, and \<open>get_token_holders\<close> returns no dictionary at all, although the
  other network answered with an error status only.
\<close>

theorem get_token_holders_raises:
  "get_token_holders sample_python html_http = Inl JSONDecodeError"
  using urls_distinct
  by (simp add: get_token_holders_unfold parsed_holders_def html_http_def sample_python_def
      HTTP_OK_def)

text \<open>
  Claim C10, amended. Whenever every response with status 200 has a body that parses
  to a document whose entry \<open>holders\<close> \<open>int\<close> accepts, \<open>get_token_holders\<close> returns a
  dictionary (never \<open>None\<close>) with exactly the keys \<open>arbitrum\<close> and \<open>base\<close>; a network whose
  response has another status keeps the default 0, and a network whose response has
  status 200 gets its parsed count, whatever the other network answered.
\<close>

theorem get_token_holders_returns:
  assumes "\<forall>u \<in> {arbitrum_url, base_url}. \<forall>err. parsed_holders py (http u) \<noteq> Some (Inl err)"
  shows "\<exists>a b. get_token_holders py http = Inr [(''arbitrum'', a), (''base'', b)] \<and>
           (status_code (http arbitrum_url) \<noteq> HTTP_OK \<longrightarrow> a = 0) \<and>
           (status_code (http base_url) \<noteq> HTTP_OK \<longrightarrow> b = 0) \<and>
           (\<forall>n. parsed_holders py (http arbitrum_url) = Some (Inr n) \<longrightarrow> a = n) \<and>
           (\<forall>n. parsed_holders py (http base_url) = Some (Inr n) \<longrightarrow> b = n)"
  using assms unfolding get_token_holders_unfold
  by (auto simp: parsed_holders_def split: option.splits sum.splits)

theorem get_token_holders_returns_witness:
  "status_code (sample_http arbitrum_url) \<noteq> HTTP_OK \<and>
   parsed_holders sample_python (sample_http arbitrum_url) = None \<and>
   parsed_holders sample_python (sample_http base_url) = Some (Inr 1523) \<and>
   get_token_holders sample_python sample_http = Inr [(''arbitrum'', 0), (''base'', 1523)]"
proof -
  have h: "\<forall>u \<in> {arbitrum_url, base_url}.
             \<forall>err. parsed_holders sample_python (sample_http u) \<noteq> Some (Inl err)"
    by (simp add: sample_parsed)
  have s: "status_code (sample_http arbitrum_url) \<noteq> HTTP_OK"
    by (simp add: sample_http_def HTTP_OK_def)
  from get_token_holders_returns [OF h] s show ?thesis
    by (auto simp: sample_parsed)
qed

section \<open>The decision of \<open>DecisionMakingBehaviour\<close>\<close>

lemma determine_winner_and_prize_result:
  assumes "determine_winner_and_prize py sd bet_details = Inr (result, prize_amount)"
  shows "(result = ''lose'' \<and> prize_amount = 0) \<or> result = ''win''"
  using assms
  by (auto simp: determine_winner_and_prize_def Let_def split: sum.splits if_splits)

lemma decision_making_async_act_ok:
  assumes "get_bet_details_from_ipfs ctx \<noteq> VNone"
    and "determine_winner_and_prize py (sync_data ctx) (get_bet_details_from_ipfs ctx) =
      Inr (result, prize_amount)"
  shows "decision_making_async_act py ctx =
           Submitted (DecisionMakingPayload (agent_address ctx)
             (event_value (if 0 < prize_amount then TRANSACT else DONE)) result
             (VStr (py_str prize_amount)))"
  using assms by (simp add: decision_making_async_act_def Let_def)

lemma decision_making_async_act_error:
  assumes "get_bet_details_from_ipfs ctx = VNone"
  shows "decision_making_async_act py ctx =
        Submitted (DecisionMakingPayload (agent_address ctx) (event_value ERROR) ''lose''
          (VInt 0))"
  using assms by (simp add: decision_making_async_act_def Let_def)

text \<open>
  Claim C9. Whenever \<open>determine_winner_and_prize\<close> returns, a result \<open>lose\<close> comes with the
  prize 0, so a positive prize comes with \<open>win\<close>. On the path where bet details are
  available and the computation returns, the payload sent carries the event \<open>TRANSACT\<close>
  exactly when the prize is positive and \<open>DONE\<close> otherwise, with the result and the prize
  as a string. On the path where bet details are unavailable the payload carries
  \<open>ERROR\<close>, the result \<open>lose\<close> and the prize 0.
\<close>

theorem decision_making_prize_and_event:
  "(determine_winner_and_prize py sd bet_details = Inr (result, prize_amount) \<longrightarrow>
      (result = ''lose'' \<longrightarrow> prize_amount = 0) \<and>
      (0 < prize_amount \<longrightarrow> result = ''win'')) \<and>
   (get_bet_details_from_ipfs ctx \<noteq> VNone \<longrightarrow>
    determine_winner_and_prize py (sync_data ctx) (get_bet_details_from_ipfs ctx) =
      Inr (result, prize_amount) \<longrightarrow>
      (\<exists>ev. decision_making_async_act py ctx =
         Submitted (DecisionMakingPayload (agent_address ctx) ev result
           (VStr (py_str prize_amount))) \<and>
        (ev = event_value TRANSACT \<longleftrightarrow> 0 < prize_amount) \<and>
        (ev = event_value DONE \<longleftrightarrow> \<not> 0 < prize_amount))) \<and>
   (get_bet_details_from_ipfs ctx = VNone \<longrightarrow>
      decision_making_async_act py ctx =
        Submitted (DecisionMakingPayload (agent_address ctx) (event_value ERROR) ''lose''
          (VInt 0)))"
proof -
  have 1: "determine_winner_and_prize py sd bet_details = Inr (result, prize_amount) \<longrightarrow>
      (result = ''lose'' \<longrightarrow> prize_amount = 0) \<and>
      (0 < prize_amount \<longrightarrow> result = ''win'')"
    using determine_winner_and_prize_result [of py sd bet_details result prize_amount]
    by auto
  have 2: "get_bet_details_from_ipfs ctx \<noteq> VNone \<longrightarrow>
    determine_winner_and_prize py (sync_data ctx) (get_bet_details_from_ipfs ctx) =
      Inr (result, prize_amount) \<longrightarrow>
      (\<exists>ev. decision_making_async_act py ctx =
         Submitted (DecisionMakingPayload (agent_address ctx) ev result
           (VStr (py_str prize_amount))) \<and>
        (ev = event_value TRANSACT \<longleftrightarrow> 0 < prize_amount) \<and>
        (ev = event_value DONE \<longleftrightarrow> \<not> 0 < prize_amount))"
    by (simp add: decision_making_async_act_ok)
  from 1 2 decision_making_async_act_error [of ctx py] show ?thesis
    by blast
qed

lemma sample_bet_details:
  "get_bet_details_from_ipfs sample_context = VList [VInt 1, VInt 10]"
  "get_bet_details_from_ipfs ipfs_down_context = VNone"
  by (simp_all add: get_bet_details_from_ipfs_def sample_context_def ipfs_down_context_def
      sample_synchronized_data_def dict_get_def)

lemma sample_determine:
  "determine_winner_and_prize sample_python sample_synchronized_data (VList [VInt 1, VInt 10]) =
     Inr (''win'', 30)"
  "determine_winner_and_prize sample_python sample_synchronized_data (VList [VInt 2, VInt 10]) =
     Inr (''lose'', 0)"
  by (simp_all add: determine_winner_and_prize_def sample_python_def
      sample_synchronized_data_def Let_def)

theorem decision_making_prize_and_event_witness:
  "determine_winner_and_prize sample_python sample_synchronized_data
      (VList [VInt 2, VInt 10]) = Inr (''lose'', 0) \<and>
   get_bet_details_from_ipfs sample_context = VList [VInt 1, VInt 10] \<and>
   determine_winner_and_prize sample_python (sync_data sample_context)
      (get_bet_details_from_ipfs sample_context) = Inr (''win'', 30) \<and>
   decision_making_async_act sample_python sample_context =
     Submitted (DecisionMakingPayload ''agent_0'' ''transact'' ''win'' (VStr ''30'')) \<and>
   get_bet_details_from_ipfs ipfs_down_context = VNone \<and>
   decision_making_async_act sample_python ipfs_down_context =
     Submitted (DecisionMakingPayload ''agent_0'' ''error'' ''lose'' (VInt 0))"
proof -
  have sd: "sync_data sample_context = sample_synchronized_data"
    by (simp add: sample_context_def)
  have a: "agent_address sample_context = ''agent_0''"
      "agent_address ipfs_down_context = ''agent_0''"
    by (simp_all add: sample_context_def ipfs_down_context_def)
  have s: "py_str 30 = ''30''"
    by (simp add: py_str_def digit_char_def)
  from decision_making_prize_and_event
         [of sample_python sample_synchronized_data "VList [VInt 2, VInt 10]" "''lose''" 0
             ipfs_down_context]
       decision_making_prize_and_event
         [of sample_python sample_synchronized_data "VList [VInt 1, VInt 10]" "''win''" 30
             sample_context]
  show ?thesis
    by (simp add: sample_bet_details sample_determine sd a s)
qed

text \<open>
  The function does return on the inputs the claim is about: for a list of integers the
  indexing never raises, so it returns whenever the float operations do.
\<close>

lemma determine_winner_and_prize_list_returns:
  assumes "truediv py \<bar>sd_arbitrum_holders sd - sd_base_holders sd\<bar> 1000 = Inr m"
    and "\<forall>n. \<exists>g k. mul_float py n m = Inr g \<and> int_of_float py g = Inr k"
    and "\<forall>x \<in> set xs. \<exists>n. x = VInt n"
  shows "\<exists>result prize_amount.
           determine_winner_and_prize py sd (VList xs) = Inr (result, prize_amount)"
proof -
  consider "xs = []" | x where "xs = [x]" | x y zs where "xs = x # y # zs"
    by (cases xs; cases "tl xs") auto
  then show ?thesis
  proof cases
    case 1
    from assms(2) obtain g k where "mul_float py 0 m = Inr g" "int_of_float py g = Inr k"
      by blast
    with 1 assms(1) show ?thesis
      by (simp add: determine_winner_and_prize_def Let_def)
  next
    case 2
    from assms(2) obtain g k where "mul_float py 0 m = Inr g" "int_of_float py g = Inr k"
      by blast
    with 2 assms(1) show ?thesis
      by (simp add: determine_winner_and_prize_def Let_def)
  next
    case 3
    with assms(3) obtain a where y: "y = VInt a"
      by auto
    from assms(2) obtain g k where "mul_float py a m = Inr g" "int_of_float py g = Inr k"
      by blast
    with 3 y assms(1) show ?thesis
      by (simp add: determine_winner_and_prize_def Let_def)
  qed
qed

section \<open>Collaborator failures in the act step\<close>










section \<open>Retry and completion\<close>

text \<open>
  Claim C6. In the transition map of \<open>CoincapAbciApp\<close>, \<open>NO_MAJORITY\<close> and \<open>ROUND_TIMEOUT\<close>
  lead from \<open>coincapRound\<close> back to \<open>coincapRound\<close>, and \<open>DONE\<close> leads to the final round
  kind \<open>FinishedCoincapRound\<close>. The round the sequence then activates is a fresh instance
  of that kind: whatever the old instance had collected, the new one has collected
  nothing, and it is another instance.
\<close>

theorem retry_reenters_same_round:
  "map_of (outgoing coincapRound) NO_MAJORITY = Some coincapRound \<and>
   map_of (outgoing coincapRound) ROUND_TIMEOUT = Some coincapRound \<and>
   map_of (outgoing coincapRound) DONE = Some FinishedCoincapRound \<and>
   FinishedCoincapRound \<in> set final_states \<and>
   advance (r\<lparr>kind := coincapRound\<rparr>) NO_MAJORITY = Inr (fresh_round coincapRound r) \<and>
   advance (r\<lparr>kind := coincapRound\<rparr>) ROUND_TIMEOUT = Inr (fresh_round coincapRound r) \<and>
   advance (r\<lparr>kind := coincapRound\<rparr>) DONE = Inr (fresh_round FinishedCoincapRound r) \<and>
   kind (fresh_round k r) = k \<and>
   collected (fresh_round k r) = [] \<and>
   instance_id (fresh_round k r) \<noteq> instance_id r"
  by (simp add: outgoing_coincap final_states_def advance_def next_round_coincap
      fresh_round_def)

section \<open>Quorum aggregation in a round\<close>

lemma threshold_value_None:
  "threshold_value r = None \<longleftrightarrow> (\<forall>v \<in> set (collected_values r). sender_count r v < threshold r)"
  by (auto simp: threshold_value_def find_None_iff not_le)

lemma threshold_value_Some:
  "threshold_value r = Some v \<Longrightarrow> threshold r \<le> sender_count r v \<and> v \<in> set (collected_values r)"
  by (auto simp: threshold_value_def find_Some_iff)

lemma add_payload_stored:
  assumes "add_payload r p = Inr r'"
  shows "map_of (collected r') (sender p) = Some p"
  using assms
  by (auto simp: add_payload_def map_add_def split: option.splits if_splits)

lemma add_payload_distinct:
  assumes "add_payload r p = Inr r'" and "distinct (map fst (collected r))"
  shows "distinct (map fst (collected r'))"
  using assms
  by (auto simp: add_payload_def map_of_eq_None_iff split: option.splits if_splits)

lemma collect_distinct:
  "distinct (map fst (collected r)) \<Longrightarrow> distinct (map fst (collected (collect r ps)))"
proof (induction ps arbitrary: r)
  case Nil
  then show ?case by simp
next
  case (Cons p ps)
  show ?case
  proof (cases "add_payload r p")
    case (Inl err)
    with Cons show ?thesis by simp
  next
    case (Inr r')
    with Cons.prems have "distinct (map fst (collected r'))"
      by (simp add: add_payload_distinct)
    with Cons.IH Inr show ?thesis by simp
  qed
qed

lemma scenario_B_collected:
  "collected scenario_B =
     [(''a'', pay ''a'' ''X''), (''b'', pay ''b'' ''X''), (''c'', pay ''c'' ''Y''), (''d'', pay ''d'' ''Y'')]"
  "threshold scenario_B = 3" "n_participants scenario_B = 4"
  by (simp_all add: scenario_B_def scenario_round_def pay_def add_payload_def has_outcome_def
      threshold_value_def collected_values_def sender_count_def senders_of_def)

lemma scenario_half_collected:
  "collected scenario_half = [(''a'', pay ''a'' ''X''), (''b'', pay ''b'' ''X'')]"
  "threshold scenario_half = 3" "n_participants scenario_half = 4"
  by (simp_all add: scenario_half_def scenario_round_def pay_def add_payload_def has_outcome_def
      threshold_value_def collected_values_def sender_count_def senders_of_def)

lemma scenario_counts:
  "sender_count scenario_B v < 3" "sender_count scenario_half v < 3"
  by (auto simp: sender_count_def senders_of_def scenario_B_collected
      scenario_half_collected pay_def)

text \<open>
  Claim C4. In every round state in which every participant has submitted (the
  collection has the size of the participant set) and no value is shared by at least
  \<open>threshold\<close> distinct senders, \<open>try_conclude\<close> returns \<open>NO_MAJORITY\<close> with the synchronized
  data unchanged; in every state where no value is shared by that many senders and not
  every participant has submitted, it returns \<open>Pending\<close>.
\<close>

theorem try_conclude_no_majority_or_pending:
  "(length (collected r) = n_participants r \<and> (\<forall>v. sender_count r v < threshold r) \<longrightarrow>
      try_conclude sd r = Concluded NO_MAJORITY sd) \<and>
   (length (collected r) \<noteq> n_participants r \<and> (\<forall>v. sender_count r v < threshold r) \<longrightarrow>
      try_conclude sd r = Pending)"
proof -
  have "(\<forall>v. sender_count r v < threshold r) \<longrightarrow> threshold_value r = None"
    by (simp add: threshold_value_None)
  then show ?thesis
    by (auto simp: try_conclude_def)
qed

theorem try_conclude_no_majority_or_pending_witness:
  "length (collected scenario_B) = n_participants scenario_B \<and>
   (\<forall>v. sender_count scenario_B v < threshold scenario_B) \<and>
   try_conclude empty_data scenario_B = Concluded NO_MAJORITY empty_data \<and>
   length (collected scenario_half) \<noteq> n_participants scenario_half \<and>
   (\<forall>v. sender_count scenario_half v < threshold scenario_half) \<and>
   try_conclude empty_data scenario_half = Pending"
  using try_conclude_no_majority_or_pending [of scenario_B empty_data]
    try_conclude_no_majority_or_pending [of scenario_half empty_data]
  by (simp add: scenario_B_collected scenario_half_collected scenario_counts)

text \<open>An entry survives every later submission.\<close>

lemma add_payload_keeps_entry:
  assumes "map_of (collected r) s = Some p" and "add_payload r q = Inr r'"
  shows "map_of (collected r') s = Some p"
proof (cases "map_of (collected r) (sender q)")
  case None
  with assms(2) have "r' = r\<lparr>collected := collected r @ [(sender q, q)]\<rparr>"
    by (simp add: add_payload_def split: if_splits)
  with assms(1) show ?thesis
    by (simp add: map_add_def)
next
  case (Some q')
  with assms(2) have "r' = r"
    by (simp add: add_payload_def split: if_splits)
  with assms(1) show ?thesis
    by simp
qed

lemma collect_keeps_entry:
  "map_of (collected r) s = Some p \<Longrightarrow> map_of (collected (collect r ps)) s = Some p"
proof (induction ps arbitrary: r)
  case Nil
  then show ?case by simp
next
  case (Cons q ps)
  show ?case
  proof (cases "add_payload r q")
    case (Inl err)
    then have "collect r (q # ps) = collect r ps"
      by simp
    with Cons.IH [OF Cons.prems] show ?thesis
      by (simp only:)
  next
    case (Inr r')
    then have c: "collect r (q # ps) = collect r' ps"
      by simp
    from Cons.prems Inr have "map_of (collected r') s = Some p"
      by (rule add_payload_keeps_entry)
    from Cons.IH [OF this] c show ?thesis
      by (simp only:)
  qed
qed

lemma add_payload_same:
  assumes "map_of (collected r) (sender p) = Some p"
  shows "(case add_payload r p of Inl err \<Rightarrow> r | Inr r'' \<Rightarrow> r'') = r"
    and "\<not> has_outcome r \<Longrightarrow> add_payload r p = Inr r"
  using assms by (simp_all add: add_payload_def)

lemma add_payload_other:
  assumes "map_of (collected r) (sender p) = Some p" and "sender q = sender p" and "q \<noteq> p"
  shows "add_payload r q = Inl DuplicatePayload"
  using assms by (auto simp: add_payload_def)

text \<open>
  Claim C5. A payload that is stored is the entry of its sender. As long as a sender
  has an entry, whatever is submitted to the round afterwards, by anyone: the entry
  stays; submitting the same payload again leaves the round as it is (and is accepted
  unless the round has concluded); a different payload of the same sender is rejected
  with \<open>DuplicatePayload\<close>, so the first stands. In every state reached by any list of
  submissions from a round whose senders have one entry each (an empty collection in
  particular), each sender has at most one entry.
\<close>

theorem add_payload_idempotent_and_duplicates:
  "(add_payload r p = Inr r' \<longrightarrow> map_of (collected r') (sender p) = Some p) \<and>
   (map_of (collected r) (sender p) = Some p \<longrightarrow>
      (\<forall>ps. map_of (collected (collect r ps)) (sender p) = Some p) \<and>
      (\<forall>ps. (case add_payload (collect r ps) p of Inl err \<Rightarrow> collect r ps | Inr r'' \<Rightarrow> r'') =
            collect r ps) \<and>
      (\<forall>ps. \<not> has_outcome (collect r ps) \<longrightarrow> add_payload (collect r ps) p = Inr (collect r ps)) \<and>
      (\<forall>ps q. sender q = sender p \<and> q \<noteq> p \<longrightarrow>
            add_payload (collect r ps) q = Inl DuplicatePayload)) \<and>
   (distinct (map fst (collected r)) \<longrightarrow> distinct (map fst (collected (collect r ps)))) \<and>
   (collected r0 = [] \<longrightarrow> distinct (map fst (collected (collect r0 ps))))"
proof (intro conjI impI allI)
  assume "add_payload r p = Inr r'"
  then show "map_of (collected r') (sender p) = Some p"
    by (rule add_payload_stored)
next
  fix ps
  assume "map_of (collected r) (sender p) = Some p"
  then show "map_of (collected (collect r ps)) (sender p) = Some p"
    by (rule collect_keeps_entry)
next
  fix ps
  assume "map_of (collected r) (sender p) = Some p"
  then have "map_of (collected (collect r ps)) (sender p) = Some p"
    by (rule collect_keeps_entry)
  then show "(case add_payload (collect r ps) p of Inl err \<Rightarrow> collect r ps | Inr r'' \<Rightarrow> r'') =
            collect r ps"
    by (rule add_payload_same)
next
  fix ps
  assume "map_of (collected r) (sender p) = Some p" and n: "\<not> has_outcome (collect r ps)"
  then have "map_of (collected (collect r ps)) (sender p) = Some p"
    by (simp add: collect_keeps_entry)
  from add_payload_same(2) [OF this n]
  show "add_payload (collect r ps) p = Inr (collect r ps)" .
next
  fix ps q
  assume "map_of (collected r) (sender p) = Some p" and q: "sender q = sender p \<and> q \<noteq> p"
  then have "map_of (collected (collect r ps)) (sender p) = Some p"
    by (simp add: collect_keeps_entry)
  with q show "add_payload (collect r ps) q = Inl DuplicatePayload"
    by (simp add: add_payload_other)
next
  assume "distinct (map fst (collected r))"
  then show "distinct (map fst (collected (collect r ps)))"
    by (rule collect_distinct)
next
  assume "collected r0 = []"
  then show "distinct (map fst (collected (collect r0 ps)))"
    using collect_distinct [of r0 ps] by simp
qed

theorem add_payload_idempotent_and_duplicates_witness:
  "add_payload scenario_round (pay ''a'' ''X'') =
     Inr (scenario_round\<lparr>collected := [(''a'', pay ''a'' ''X'')]\<rparr>) \<and>
   map_of (collected (scenario_round\<lparr>collected := [(''a'', pay ''a'' ''X'')]\<rparr>))
     (sender (pay ''a'' ''X'')) = Some (pay ''a'' ''X'') \<and>
   collect (scenario_round\<lparr>collected := [(''a'', pay ''a'' ''X'')]\<rparr>) [pay ''b'' ''X''] =
     scenario_round\<lparr>collected := [(''a'', pay ''a'' ''X''), (''b'', pay ''b'' ''X'')]\<rparr> \<and>
   \<not> has_outcome (scenario_round\<lparr>collected := [(''a'', pay ''a'' ''X''), (''b'', pay ''b'' ''X'')]\<rparr>) \<and>
   add_payload (scenario_round\<lparr>collected := [(''a'', pay ''a'' ''X''), (''b'', pay ''b'' ''X'')]\<rparr>)
     (pay ''a'' ''X'') =
     Inr (scenario_round\<lparr>collected := [(''a'', pay ''a'' ''X''), (''b'', pay ''b'' ''X'')]\<rparr>) \<and>
   sender (pay ''a'' ''Y'') = sender (pay ''a'' ''X'') \<and>
   pay ''a'' ''Y'' \<noteq> pay ''a'' ''X'' \<and>
   add_payload (scenario_round\<lparr>collected := [(''a'', pay ''a'' ''X''), (''b'', pay ''b'' ''X'')]\<rparr>)
     (pay ''a'' ''Y'') = Inl DuplicatePayload \<and>
   collected scenario_round = [] \<and>
   distinct (map fst (collected (collect scenario_round
     [pay ''a'' ''X'', pay ''a'' ''Y'', pay ''b'' ''X'', pay ''a'' ''X''])))"
proof -
  let ?p = "pay ''a'' ''X''"
  let ?r' = "scenario_round\<lparr>collected := [(''a'', pay ''a'' ''X'')]\<rparr>"
  let ?r2 = "scenario_round\<lparr>collected := [(''a'', pay ''a'' ''X''), (''b'', pay ''b'' ''X'')]\<rparr>"
  let ?ps = "[pay ''a'' ''X'', pay ''a'' ''Y'', pay ''b'' ''X'', pay ''a'' ''X'']"
  have 1: "add_payload scenario_round ?p = Inr ?r'"
    by (simp add: scenario_round_def pay_def add_payload_def has_outcome_def
        threshold_value_def collected_values_def)
  have 2: "collect ?r' [pay ''b'' ''X''] = ?r2"
    by (simp add: scenario_round_def pay_def add_payload_def has_outcome_def
        threshold_value_def collected_values_def sender_count_def senders_of_def)
  have 3: "\<not> has_outcome ?r2"
    by (simp add: scenario_round_def pay_def has_outcome_def
        threshold_value_def collected_values_def sender_count_def senders_of_def)
  have 4: "sender (pay ''a'' ''Y'') = sender ?p" "pay ''a'' ''Y'' \<noteq> ?p"
    by (simp_all add: pay_def)
  have 5: "collected scenario_round = []"
    by (simp add: scenario_round_def)
  note T = add_payload_idempotent_and_duplicates
    [where r = scenario_round and p = ?p and r' = ?r' and ps = ?ps and ?r0.0 = scenario_round]
  note T' = add_payload_idempotent_and_duplicates
    [where r = ?r' and p = ?p and r' = ?r' and ps = ?ps and ?r0.0 = scenario_round]
  from T 1 have 6: "map_of (collected ?r') (sender ?p) = Some ?p"
    by (rule conjunct1 [THEN mp])
  note U = T' [THEN conjunct2, THEN conjunct1, THEN mp, OF 6]
  have h3: "\<not> has_outcome (collect ?r' [pay ''b'' ''X''])"
    unfolding 2 by (fact 3)
  from U [THEN conjunct2, THEN conjunct2, THEN conjunct1, rule_format, OF h3]
  have 7: "add_payload ?r2 ?p = Inr ?r2"
    unfolding 2 .
  from U [THEN conjunct2, THEN conjunct2, THEN conjunct2, rule_format,
      of "pay ''a'' ''Y''" "[pay ''b'' ''X'']", OF conjI [OF 4]]
  have 8: "add_payload ?r2 (pay ''a'' ''Y'') = Inl DuplicatePayload"
    unfolding 2 .
  from T [THEN conjunct2, THEN conjunct2, THEN conjunct2, THEN mp, OF 5]
  have 9: "distinct (map fst (collected (collect scenario_round ?ps)))" .
  show ?thesis
    apply (intro conjI)
             apply (rule 1)
            apply (rule 6)
           apply (rule 2)
          apply (rule 3)
         apply (rule 7)
        apply (rule 4(1))
       apply (rule 4(2))
      apply (rule 8)
     apply (rule 5)
    apply (rule 9)
    done
qed

section \<open>The outcome of a round and the order of arrival\<close>

text \<open>
  A round stops storing at its first outcome; until then every sender that submitted
  has an entry, and every entry is a submitted payload.
\<close>

lemma collect_concluded:
  "has_outcome r \<Longrightarrow> collect r ps = r"
  by (induction ps) (auto simp: add_payload_def split: option.splits)

lemma add_payload_config:
  assumes "add_payload r p = Inr r'"
  shows "threshold r' = threshold r" and "n_participants r' = n_participants r"
    and "set (collected r') \<subseteq> insert (sender p, p) (set (collected r))"
    and "set (collected r) \<subseteq> set (collected r')"
  using assms by (auto simp: add_payload_def split: option.splits if_splits)

lemma collect_config:
  "threshold (collect r ps) = threshold r \<and> n_participants (collect r ps) = n_participants r \<and>
   set (collected r) \<subseteq> set (collected (collect r ps)) \<and>
   set (collected (collect r ps)) \<subseteq> set (collected r) \<union> (\<lambda>p. (sender p, p)) ` set ps"
proof (induction ps arbitrary: r)
  case Nil
  show ?case by simp
next
  case (Cons q ps)
  show ?case
  proof (cases "add_payload r q")
    case (Inl err)
    then have "collect r (q # ps) = collect r ps"
      by simp
    with Cons [of r] show ?thesis
      by auto
  next
    case (Inr r')
    then have c: "collect r (q # ps) = collect r' ps"
      by simp
    from add_payload_config [OF Inr] Cons [of r'] show ?thesis
      unfolding c by auto
  qed
qed

lemma collect_pending_all_senders:
  "\<not> has_outcome (collect r ps) \<Longrightarrow> sender ` set ps \<subseteq> fst ` set (collected (collect r ps))"
proof (induction ps arbitrary: r)
  case Nil
  show ?case by simp
next
  case (Cons q ps)
  have pending: "\<not> has_outcome r"
  proof
    assume "has_outcome r"
    then have "collect r (q # ps) = r"
      by (rule collect_concluded)
    with Cons.prems \<open>has_outcome r\<close> show False
      by simp
  qed
  define r1 where "r1 = (case add_payload r q of Inl err \<Rightarrow> r | Inr r' \<Rightarrow> r')"
  have c: "collect r (q # ps) = collect r1 ps"
    by (simp add: r1_def)
  have "sender q \<in> fst ` set (collected r1)"
  proof (cases "map_of (collected r) (sender q)")
    case None
    with pending have "r1 = r\<lparr>collected := collected r @ [(sender q, q)]\<rparr>"
      by (simp add: r1_def add_payload_def)
    then show ?thesis
      by (simp add: image_iff)
  next
    case (Some q')
    then have "(sender q, q') \<in> set (collected r)"
      by (rule map_of_SomeD)
    moreover from Some pending have "r1 = r"
      by (simp add: r1_def add_payload_def)
    ultimately show ?thesis
      by (force simp: image_iff)
  qed
  moreover have "set (collected r1) \<subseteq> set (collected (collect r1 ps))"
    using collect_config [of r1 ps] by blast
  ultimately have "sender q \<in> fst ` set (collected (collect r1 ps))"
    by auto
  moreover have "\<not> has_outcome (collect r1 ps)"
    using Cons.prems unfolding c .
  then have "sender ` set ps \<subseteq> fst ` set (collected (collect r1 ps))"
    by (rule Cons.IH)
  ultimately show ?case
    unfolding c by simp
qed


text \<open>Counting senders: the two counts as cardinalities.\<close>

lemma sender_count_card:
  "sender_count r v = card {s. \<exists>p. (s, p) \<in> set (collected r) \<and> payload_value p = v}"
proof -
  have "set (senders_of r v) = {s. \<exists>p. (s, p) \<in> set (collected r) \<and> payload_value p = v}"
    by (force simp: senders_of_def image_iff)
  then show ?thesis
    by (simp add: sender_count_def length_remdups_card_conv)
qed

lemma distinct_senders_card:
  "distinct_senders ps v = card (sender ` {p \<in> set ps. payload_value p = v})"
proof -
  have "set (map sender (filter (\<lambda>p. payload_value p = v) ps)) =
        sender ` {p \<in> set ps. payload_value p = v}"
    by auto
  then show ?thesis
    by (simp only: distinct_senders_def length_remdups_card_conv)
qed

lemma sender_count_le_submitted:
  assumes "set (collected r) \<subseteq> (\<lambda>p. (sender p, p)) ` set ps"
  shows "sender_count r v \<le> distinct_senders ps v"
proof -
  have "{s. \<exists>p. (s, p) \<in> set (collected r) \<and> payload_value p = v} \<subseteq>
        sender ` {p \<in> set ps. payload_value p = v}"
    using assms by auto
  then show ?thesis
    unfolding sender_count_card distinct_senders_card
    by (intro card_mono) auto
qed

lemma sender_count_all_present:
  assumes "set (collected r) \<subseteq> (\<lambda>p. (sender p, p)) ` set ps"
    and "sender ` set ps \<subseteq> fst ` set (collected r)"
    and "\<forall>p \<in> set ps. \<forall>q \<in> set ps. sender p = sender q \<longrightarrow> payload_value p = payload_value q"
  shows "sender_count r v = distinct_senders ps v"
proof -
  have "{s. \<exists>p. (s, p) \<in> set (collected r) \<and> payload_value p = v} =
        sender ` {p \<in> set ps. payload_value p = v}" (is "?L = ?R")
  proof
    show "?L \<subseteq> ?R"
    proof
      fix s
      assume "s \<in> ?L"
      then obtain p where "(s, p) \<in> set (collected r)" "payload_value p = v"
        by blast
      with assms(1) show "s \<in> ?R"
        by auto
    qed
    show "?R \<subseteq> ?L"
    proof
      fix s
      assume "s \<in> ?R"
      then obtain p where p: "p \<in> set ps" "payload_value p = v" "s = sender p"
        by blast
      from p(1,3) have "s \<in> sender ` set ps"
        by simp
      with assms(2) have "s \<in> fst ` set (collected r)"
        by (rule subsetD)
      then obtain q where q: "(s, q) \<in> set (collected r)"
        by (auto simp: image_iff)
      with assms(1) have "(s, q) \<in> (\<lambda>p. (sender p, p)) ` set ps"
        by (rule subsetD)
      then have q': "q \<in> set ps" "sender q = s"
        by auto
      from assms(3) [rule_format, OF q'(1) p(1)] q'(2) p(2,3) have "payload_value q = v"
        by simp
      with q show "s \<in> ?L"
        by blast
    qed
  qed
  then show ?thesis
    by (simp only: sender_count_card distinct_senders_card)
qed

lemma two_values_senders:
  assumes "v \<noteq> w"
    and "\<forall>p \<in> set ps. \<forall>q \<in> set ps. sender p = sender q \<longrightarrow> payload_value p = payload_value q"
  shows "distinct_senders ps v + distinct_senders ps w \<le> length (remdups (map sender ps))"
proof -
  let ?V = "sender ` {p \<in> set ps. payload_value p = v}"
  let ?W = "sender ` {p \<in> set ps. payload_value p = w}"
  have "?V \<inter> ?W = {}"
    using assms by auto
  then have "card ?V + card ?W = card (?V \<union> ?W)"
    by (simp add: card_Un_disjoint)
  also have "\<dots> \<le> card (sender ` set ps)"
    by (intro card_mono) auto
  finally show ?thesis
    by (simp add: distinct_senders_card length_remdups_card_conv)
qed

lemma full_round_all_senders:
  assumes "distinct (map fst (collected r))"
    and "set (collected r) \<subseteq> (\<lambda>p. (sender p, p)) ` set ps"
    and "length (remdups (map sender ps)) \<le> length (collected r)"
  shows "fst ` set (collected r) = sender ` set ps"
proof (rule card_subset_eq)
  show "finite (sender ` set ps)"
    by simp
  show "fst ` set (collected r) \<subseteq> sender ` set ps"
    using assms(2) by auto
  have "card (fst ` set (collected r)) = length (collected r)"
    using assms(1) distinct_card [of "map fst (collected r)"] by simp
  moreover have "card (sender ` set ps) = length (remdups (map sender ps))"
    by (simp add: length_remdups_card_conv)
  moreover have "card (fst ` set (collected r)) \<le> card (sender ` set ps)"
    using assms(2) by (intro card_mono) auto
  ultimately show "card (fst ` set (collected r)) = card (sender ` set ps)"
    using assms(3) by simp
qed


text \<open>The state a fresh round is in after a list of submissions.\<close>

lemma collect_fresh:
  assumes "collected r0 = []"
  shows "threshold (collect r0 ps) = threshold r0"
    and "n_participants (collect r0 ps) = n_participants r0"
    and "set (collected (collect r0 ps)) \<subseteq> (\<lambda>p. (sender p, p)) ` set ps"
    and "distinct (map fst (collected (collect r0 ps)))"
  using collect_config [of r0 ps] collect_distinct [of r0 ps] assms by auto

lemma no_winner_all_senders:
  assumes "collected r0 = []"
    and "length (remdups (map sender ps)) \<le> n_participants r0"
    and "threshold_value (collect r0 ps) = None"
  shows "fst ` set (collected (collect r0 ps)) = sender ` set ps"
proof (cases "has_outcome (collect r0 ps)")
  case True
  with assms(3) have "length (collected (collect r0 ps)) = n_participants r0"
    by (simp add: has_outcome_def collect_fresh(2) [OF assms(1)])
  with assms(2) have "length (remdups (map sender ps)) \<le> length (collected (collect r0 ps))"
    by simp
  with collect_fresh(4,3) [OF assms(1)] show ?thesis
    by (rule full_round_all_senders)
next
  case False
  then have "sender ` set ps \<subseteq> fst ` set (collected (collect r0 ps))"
    by (rule collect_pending_all_senders)
  moreover have "fst ` set (collected (collect r0 ps)) \<subseteq> sender ` set ps"
    using collect_fresh(3) [OF assms(1), of ps] by auto
  ultimately show ?thesis
    by blast
qed

lemma no_winner_size:
  assumes "collected r0 = []"
    and "length (remdups (map sender ps)) \<le> n_participants r0"
    and "threshold_value (collect r0 ps) = None"
  shows "length (collected (collect r0 ps)) = length (remdups (map sender ps))"
proof -
  have "length (collected (collect r0 ps)) = card (fst ` set (collected (collect r0 ps)))"
    using collect_fresh(4) [OF assms(1), of ps]
      distinct_card [of "map fst (collected (collect r0 ps))"] by simp
  also have "\<dots> = card (sender ` set ps)"
    by (simp only: no_winner_all_senders [OF assms])
  also have "\<dots> = length (remdups (map sender ps))"
    by (simp add: length_remdups_card_conv)
  finally show ?thesis .
qed

lemma done_needs_threshold:
  assumes "collected r0 = []"
    and "threshold_value (collect r0 ps) = Some v"
  shows "threshold r0 \<le> distinct_senders ps v"
proof -
  from threshold_value_Some [OF assms(2)]
  have "threshold r0 \<le> sender_count (collect r0 ps) v"
    by (simp add: collect_fresh(1) [OF assms(1)])
  also have "\<dots> \<le> distinct_senders ps v"
    using collect_fresh(3) [OF assms(1)] by (rule sender_count_le_submitted)
  finally show ?thesis .
qed

lemma done_iff_threshold:
  assumes "collected r0 = []"
    and "\<forall>p \<in> set ps. \<forall>q \<in> set ps. sender p = sender q \<longrightarrow> payload_value p = payload_value q"
    and "length (remdups (map sender ps)) \<le> n_participants r0"
    and "n_participants r0 < 2 * threshold r0"
  shows "threshold_value (collect r0 ps) = Some v \<longleftrightarrow> threshold r0 \<le> distinct_senders ps v"
proof
  assume "threshold_value (collect r0 ps) = Some v"
  with assms(1) show "threshold r0 \<le> distinct_senders ps v"
    by (rule done_needs_threshold)
next
  assume v: "threshold r0 \<le> distinct_senders ps v"
  have unique: "w = v" if "threshold_value (collect r0 ps) = Some w" for w
  proof (rule ccontr)
    assume "w \<noteq> v"
    from done_needs_threshold [OF assms(1) that]
    have "threshold r0 \<le> distinct_senders ps w" .
    with v two_values_senders [OF \<open>w \<noteq> v\<close> assms(2)] assms(3,4)
    show False
      by linarith
  qed
  have "threshold_value (collect r0 ps) \<noteq> None"
  proof
    assume none: "threshold_value (collect r0 ps) = None"
    have all: "sender ` set ps \<subseteq> fst ` set (collected (collect r0 ps))"
      using no_winner_all_senders [OF assms(1,3) none] by simp
    from collect_fresh(3) [OF assms(1)] all assms(2)
    have c: "sender_count (collect r0 ps) v = distinct_senders ps v"
      by (rule sender_count_all_present)
    from assms(4) v have "0 < distinct_senders ps v"
      by linarith
    with c have "0 < sender_count (collect r0 ps) v"
      by simp
    then have "senders_of (collect r0 ps) v \<noteq> []"
      by (auto simp: sender_count_def)
    then have "v \<in> set (collected_values (collect r0 ps))"
      by (force simp: senders_of_def collected_values_def filter_empty_conv)
    with none have "sender_count (collect r0 ps) v < threshold (collect r0 ps)"
      by (simp add: threshold_value_None)
    with c v show False
      by (simp add: collect_fresh(1) [OF assms(1)])
  qed
  then obtain w where "threshold_value (collect r0 ps) = Some w"
    by blast
  with unique show "threshold_value (collect r0 ps) = Some v"
    by blast
qed


lemma map_of_dict_set: "map_of (dict_set d k v) k = Some v"
  by (induction d) auto

lemma try_conclude_done:
  "(\<exists>sd'. try_conclude sd r = Concluded DONE sd' \<and>
          map_of (entries sd') (hd selection_key) = Some v) \<longleftrightarrow>
   threshold_value r = Some v"
  by (auto simp: try_conclude_def synchronized_data_with_def map_of_dict_set
      split: option.splits)

lemma round_result_done:
  "round_result r = Some (DONE, Some v) \<longleftrightarrow> threshold_value r = Some v"
  by (auto simp: round_result_def split: option.splits)

lemma round_result_permuted:
  assumes "collected r0 = []"
    and "\<forall>p \<in> set ps. \<forall>q \<in> set ps. sender p = sender q \<longrightarrow> payload_value p = payload_value q"
    and "length (remdups (map sender ps)) \<le> n_participants r0"
    and "n_participants r0 < 2 * threshold r0"
    and "mset ps' = mset ps"
  shows "round_result (collect r0 ps') = round_result (collect r0 ps)"
proof -
  have s: "set ps' = set ps"
    using assms(5) by (rule mset_eq_setD)
  have a2: "\<forall>p \<in> set ps'. \<forall>q \<in> set ps'. sender p = sender q \<longrightarrow> payload_value p = payload_value q"
    using assms(2) unfolding s .
  have l: "length (remdups (map sender ps')) = length (remdups (map sender ps))"
    by (simp add: length_remdups_card_conv s)
  have a3: "length (remdups (map sender ps')) \<le> n_participants r0"
    using assms(3) by (simp only: l)
  have cnt: "distinct_senders ps' v = distinct_senders ps v" for v
    by (simp only: distinct_senders_card s)
  have iff: "threshold_value (collect r0 ps') = Some v \<longleftrightarrow>
             threshold_value (collect r0 ps) = Some v" for v
    unfolding done_iff_threshold [OF assms(1) a2 a3 assms(4)]
      done_iff_threshold [OF assms(1-4)] cnt ..
  show ?thesis
  proof (cases "threshold_value (collect r0 ps)")
    case (Some v)
    moreover from Some iff [of v] have "threshold_value (collect r0 ps') = Some v"
      by simp
    ultimately show ?thesis
      by (simp add: round_result_def)
  next
    case None
    have none': "threshold_value (collect r0 ps') = None"
    proof (cases "threshold_value (collect r0 ps')")
      case (Some w)
      with iff [of w] None show ?thesis by simp
    qed simp
    have "length (collected (collect r0 ps')) = length (collected (collect r0 ps))"
      by (simp only: no_winner_size [OF assms(1) a3 none'] no_winner_size [OF assms(1,3) None] l)
    with None none' show ?thesis
      by (simp add: round_result_def collect_fresh(2) [OF assms(1)])
  qed
qed

text \<open>
  Claim C1, as stated, fails, also for a quorum threshold: with four participants and
  the threshold three, the participant c submits Y and then X. Three distinct senders
  submitted X, yet the round is pending, since the second payload of c is rejected; when
  the X of c arrives first the round is \<open>DONE\<close> with X. The outcome depends on the order
  of arrival.
\<close>

theorem conflicting_sender_order_dependent:
  "n_participants scenario_round < 2 * threshold scenario_round \<and>
   threshold scenario_round \<le>
     distinct_senders [pay ''a'' ''X'', pay ''b'' ''X'', pay ''c'' ''Y'', pay ''c'' ''X''] ''X'' \<and>
   round_result (collect scenario_round
     [pay ''a'' ''X'', pay ''b'' ''X'', pay ''c'' ''Y'', pay ''c'' ''X'']) = None \<and>
   round_result (collect scenario_round
     [pay ''c'' ''X'', pay ''a'' ''X'', pay ''b'' ''X'', pay ''c'' ''Y'']) =
     Some (DONE, Some ''X'')"
  by (simp add: scenario_round_def pay_def distinct_senders_def
      round_result_def add_payload_def has_outcome_def threshold_value_def
      collected_values_def sender_count_def senders_of_def)

text \<open>
  Claim C1, amended. For a fresh round with a participant set of size \<open>n\<close> and a quorum
  threshold \<open>t\<close> (\<open>n < 2 * t\<close>), and for payloads of at most \<open>n\<close> distinct senders among
  which no sender submits two different values (a sender may submit its payload again):
  the round concludes with \<open>DONE\<close> carrying \<open>v\<close> if and only if at least \<open>t\<close> distinct senders
  submitted \<open>v\<close>, and the event and value it concludes with are the same for every
  arrival order of the payloads.
\<close>

theorem quorum_round_done_iff:
  assumes "collected r0 = []"
    and "\<forall>p \<in> set ps. \<forall>q \<in> set ps. sender p = sender q \<longrightarrow> payload_value p = payload_value q"
    and "length (remdups (map sender ps)) \<le> n_participants r0"
    and "n_participants r0 < 2 * threshold r0"
  shows "((\<exists>sd'. try_conclude sd (collect r0 ps) = Concluded DONE sd' \<and>
             map_of (entries sd') (hd selection_key) = Some v) \<longleftrightarrow>
          threshold r0 \<le> distinct_senders ps v) \<and>
         (round_result (collect r0 ps) = Some (DONE, Some v) \<longleftrightarrow>
          threshold r0 \<le> distinct_senders ps v) \<and>
         (\<forall>ps'. mset ps' = mset ps \<longrightarrow>
            round_result (collect r0 ps') = round_result (collect r0 ps))"
proof -
  have 1: "(\<exists>sd'. try_conclude sd (collect r0 ps) = Concluded DONE sd' \<and>
             map_of (entries sd') (hd selection_key) = Some v) \<longleftrightarrow>
          threshold r0 \<le> distinct_senders ps v"
    unfolding try_conclude_done by (rule done_iff_threshold [OF assms])
  have 2: "round_result (collect r0 ps) = Some (DONE, Some v) \<longleftrightarrow>
          threshold r0 \<le> distinct_senders ps v"
    unfolding round_result_done by (rule done_iff_threshold [OF assms])
  have 3: "\<forall>ps'. mset ps' = mset ps \<longrightarrow>
            round_result (collect r0 ps') = round_result (collect r0 ps)"
    using round_result_permuted [OF assms] by blast
  from 1 2 3 show ?thesis
    by blast
qed

theorem quorum_round_done_iff_witness:
  "collected scenario_round = [] \<and>
   remdups (map (\<lambda>p. (sender p, payload_value p))
     [pay ''a'' ''X'', pay ''b'' ''X'', pay ''a'' ''X'', pay ''c'' ''X'', pay ''d'' ''Y'']) =
     [(''b'', ''X''), (''a'', ''X''), (''c'', ''X''), (''d'', ''Y'')] \<and>
   length (remdups (map sender
     [pay ''a'' ''X'', pay ''b'' ''X'', pay ''a'' ''X'', pay ''c'' ''X'', pay ''d'' ''Y''])) \<le>
     n_participants scenario_round \<and>
   n_participants scenario_round < 2 * threshold scenario_round \<and>
   threshold scenario_round \<le> distinct_senders
     [pay ''a'' ''X'', pay ''b'' ''X'', pay ''a'' ''X'', pay ''c'' ''X'', pay ''d'' ''Y''] ''X'' \<and>
   round_result (collect scenario_round
     [pay ''a'' ''X'', pay ''b'' ''X'', pay ''a'' ''X'', pay ''c'' ''X'', pay ''d'' ''Y'']) =
     Some (DONE, Some ''X'') \<and>
   round_result (collect scenario_round
     [pay ''d'' ''Y'', pay ''a'' ''X'', pay ''c'' ''X'', pay ''b'' ''X'', pay ''a'' ''X'']) =
     Some (DONE, Some ''X'')"
proof -
  let ?ps = "[pay ''a'' ''X'', pay ''b'' ''X'', pay ''a'' ''X'', pay ''c'' ''X'', pay ''d'' ''Y'']"
  let ?ps' = "[pay ''d'' ''Y'', pay ''a'' ''X'', pay ''c'' ''X'', pay ''b'' ''X'', pay ''a'' ''X'']"
  have 1: "collected scenario_round = []"
    by (simp add: scenario_round_def)
  have 2: "\<forall>p \<in> set ?ps. \<forall>q \<in> set ?ps. sender p = sender q \<longrightarrow> payload_value p = payload_value q"
    by (simp add: pay_def)
  have 3: "length (remdups (map sender ?ps)) \<le> n_participants scenario_round"
    by (simp add: scenario_round_def pay_def)
  have 4: "n_participants scenario_round < 2 * threshold scenario_round"
    by (simp add: scenario_round_def)
  have 5: "threshold scenario_round \<le> distinct_senders ?ps ''X''"
    by (simp add: scenario_round_def distinct_senders_def pay_def)
  have 6: "mset ?ps' = mset ?ps"
    by simp
  note T = quorum_round_done_iff [OF 1 2 3 4, of empty_data "''X''"]
  from T 5 have 7: "round_result (collect scenario_round ?ps) = Some (DONE, Some ''X'')"
    by blast
  from T 6 have "round_result (collect scenario_round ?ps') =
      round_result (collect scenario_round ?ps)"
    by blast
  with 7 have 8: "round_result (collect scenario_round ?ps') = Some (DONE, Some ''X'')"
    by (simp only:)
  have h2: "remdups (map (\<lambda>p. (sender p, payload_value p)) ?ps) =
      [(''b'', ''X''), (''a'', ''X''), (''c'', ''X''), (''d'', ''Y'')]"
    by (simp add: pay_def)
  show ?thesis
    apply (intro conjI)
          apply (rule 1)
         apply (rule h2)
        apply (rule 3)
       apply (rule 4)
      apply (rule 5)
     apply (rule 7)
    apply (rule 8)
    done
qed

end
